theory Spec2Isabelle
  imports Main "HOL-Library.Multiset"
begin

section \<open>DrankSpel: the pyramid drinking game (domein.py, persistentie.py)\<close>

text \<open>
  A shallow embedding of the domain module and of the JSON persistence module.
  Python integers are \<open>int\<close>, lists are HOL lists, a raised exception is the \<open>Inl\<close>
  branch of a sum, and every method that mutates an object returns the updated object next
  to its result, also when it raises: whatever was mutated before the \<open>raise\<close> stays mutated.
\<close>

subsection \<open>Exceptions\<close>

datatype error =
    ValueError string
  | RuntimeError string
  | IndexError
  | KeyError string
  | TypeError
  | FileNotFoundError

subsection \<open>Python list indexing and slicing\<close>

text \<open>
  \<open>xs[i]\<close>: an index below zero counts from the end of the list; an index that is still
  outside the list after that raises \<open>IndexError\<close>.
\<close>

definition py_index :: "'a list \<Rightarrow> int \<Rightarrow> error + 'a" where
  "py_index xs i =
     (if 0 \<le> i \<and> i < int (length xs) then Inr (xs ! nat i)
      else if i < 0 \<and> - int (length xs) \<le> i then Inr (xs ! nat (int (length xs) + i))
      else Inl IndexError)"

text \<open>
  A slice bound is clamped into \<open>0..len\<close>, a negative bound counting from the end first;
  \<open>xs[a:b]\<close> never raises.
\<close>

definition slice_bound :: "nat \<Rightarrow> int \<Rightarrow> nat" where
  "slice_bound len i =
     (if i < 0 then nat (max 0 (int len + i)) else min len (nat i))"

definition py_slice :: "'a list \<Rightarrow> int \<Rightarrow> int \<Rightarrow> 'a list" where
  "py_slice xs a b =
     (let lo = slice_bound (length xs) a; hi = slice_bound (length xs) b
      in take (hi - lo) (drop lo xs))"

text \<open>\<open>xs[:n]\<close> and \<open>del xs[:n]\<close>.\<close>

definition slice_to :: "'a list \<Rightarrow> int \<Rightarrow> 'a list" where
  "slice_to xs n = take (slice_bound (length xs) n) xs"

definition del_slice_to :: "'a list \<Rightarrow> int \<Rightarrow> 'a list" where
  "del_slice_to xs n = drop (slice_bound (length xs) n) xs"

subsection \<open>Card and Deck\<close>

record card =
  rank :: string
  suit :: string

record deck =
  cards :: "card list"

definition ranks :: "string list" where
  "ranks = [''A'', ''2'', ''3'', ''4'', ''5''] @ [''6'', ''7'', ''8'', ''9'', ''10''] @
           [''J'', ''Q'', ''K'']"

definition suits :: "string list" where
  "suits = [''hearts'', ''diamonds'', ''clubs'', ''spades'']"

text \<open>\<open>[Card(rank, suit) for suit in self.suits for rank in self.ranks]\<close>\<close>

definition all_cards :: "card list" where
  "all_cards = concat (map (\<lambda>s. map (\<lambda>r. \<lparr>rank = r, suit = s\<rparr>) ranks) suits)"

definition Deck_init :: "error + deck" where
  "Deck_init =
     (if length all_cards \<noteq> 52 then Inl (ValueError ''Deck must contain 52 cards'')
      else Inr \<lparr>cards = all_cards\<rparr>)"

text \<open>
  \<open>random.shuffle\<close> reorders the list in place. The permutation it draws is the
  parameter \<open>sh\<close>.
\<close>

definition shuffle :: "(card list \<Rightarrow> card list) \<Rightarrow> deck \<Rightarrow> deck" where
  "shuffle sh d = d\<lparr>cards := sh (cards d)\<rparr>"

definition deal :: "deck \<Rightarrow> int \<Rightarrow> (error + card list) \<times> deck" where
  "deal d n =
     (if n > int (length (cards d)) then (Inl (ValueError ''Not enough cards to deal''), d)
      else (Inr (slice_to (cards d) n), d\<lparr>cards := del_slice_to (cards d) n\<rparr>))"

subsection \<open>The row count of the pyramid\<close>

text \<open>
  \<open>math.isqrt\<close>: the floor of the square root of a non-negative integer, computed on
  exact integers; a negative argument raises \<open>ValueError\<close>.
\<close>

fun isqrt_nat :: "nat \<Rightarrow> nat" where
  "isqrt_nat n =
     (if n = 0 then 0
      else let r = 2 * isqrt_nat (n div 4)
           in if (r + 1) * (r + 1) \<le> n then r + 1 else r)"

definition isqrt :: "int \<Rightarrow> error + int" where
  "isqrt n =
     (if n < 0 then Inl (ValueError ''isqrt() argument must be nonnegative'')
      else Inr (int (isqrt_nat (nat n))))"

definition max_pyramid_rows :: "int \<Rightarrow> error + int" where
  "max_pyramid_rows remaining =
     (case isqrt (8 * remaining + 1) of
        Inl e \<Rightarrow> Inl e
      | Inr s \<Rightarrow> Inr ((s - 1) div 2))"

subsection \<open>Player\<close>

text \<open>
  Player objects are passed around by reference: \<open>play_turn\<close> receives two of them, and
  nothing stops a caller from passing the same object twice. The objects therefore live in
  a heap, addressed by a reference, and \<open>next_ref\<close> is the first address not yet allocated.
\<close>

type_synonym ref = nat

record player =
  name :: string
  hand :: "card list"
  revealed_indices :: "int set"
  drinks_taken :: int

record world =
  heap :: "ref \<Rightarrow> player"
  next_ref :: ref

definition Player_init :: "string \<Rightarrow> player" where
  "Player_init nm = \<lparr>name = nm, hand = [], revealed_indices = {}, drinks_taken = 0\<rparr>"

definition receive :: "player \<Rightarrow> card list \<Rightarrow> player" where
  "receive p cs = p\<lparr>hand := hand p @ cs\<rparr>"

text \<open>
  \<open>reveal\<close> adds the index to the set first and reads the hand second, so the player it
  returns has the index recorded also when the read raises.
\<close>

definition reveal :: "player \<Rightarrow> int \<Rightarrow> (error + card) \<times> player" where
  "reveal p index =
     (let p1 = p\<lparr>revealed_indices := insert index (revealed_indices p)\<rparr>
      in (py_index (hand p1) index, p1))"

definition drink :: "player \<Rightarrow> int \<Rightarrow> player" where
  "drink p amount = p\<lparr>drinks_taken := drinks_taken p + amount\<rparr>"

text \<open>The same methods, called through a reference.\<close>

definition new_player :: "world \<Rightarrow> string \<Rightarrow> ref \<times> world" where
  "new_player w nm =
     (next_ref w,
      w\<lparr>heap := (heap w)(next_ref w := Player_init nm), next_ref := Suc (next_ref w)\<rparr>)"

definition receive_at :: "world \<Rightarrow> ref \<Rightarrow> card list \<Rightarrow> world" where
  "receive_at w r cs = w\<lparr>heap := (heap w)(r := receive (heap w r) cs)\<rparr>"

definition reveal_at :: "world \<Rightarrow> ref \<Rightarrow> int \<Rightarrow> (error + card) \<times> world" where
  "reveal_at w r index =
     (case reveal (heap w r) index of (res, p1) \<Rightarrow> (res, w\<lparr>heap := (heap w)(r := p1)\<rparr>))"

definition drink_at :: "world \<Rightarrow> ref \<Rightarrow> int \<Rightarrow> world" where
  "drink_at w r amount = w\<lparr>heap := (heap w)(r := drink (heap w r) amount)\<rparr>"

subsection \<open>Pyramid\<close>

record pyramid =
  rows :: "card list list"
  row :: int
  col :: int

text \<open>
  The constructor's loop \<open>for size in range(rows, 0, -1)\<close>: the last argument is
  \<open>size\<close>, counting down to 1, and \<open>idx\<close> is where the next row starts.
\<close>

fun build_rows :: "card list \<Rightarrow> int \<Rightarrow> nat \<Rightarrow> card list list" where
  "build_rows cs idx 0 = []"
| "build_rows cs idx (Suc k) =
     py_slice cs idx (idx + int (Suc k)) # build_rows cs (idx + int (Suc k)) k"

definition Pyramid_init :: "card list \<Rightarrow> int \<Rightarrow> pyramid" where
  "Pyramid_init cs n = \<lparr>rows = build_rows cs 0 (nat n), row = 0, col = 0\<rparr>"

definition next_card :: "pyramid \<Rightarrow> (error + card option) \<times> pyramid" where
  "next_card p =
     (if row p \<ge> int (length (rows p)) then (Inr None, p)
      else case py_index (rows p) (row p) of
             Inl e \<Rightarrow> (Inl e, p)
           | Inr current \<Rightarrow>
               (case py_index current (col p) of
                  Inl e \<Rightarrow> (Inl e, p)
                | Inr c \<Rightarrow>
                    let p1 = p\<lparr>col := col p + 1\<rparr>
                    in if col p1 \<ge> int (length current)
                       then (Inr (Some c), p1\<lparr>row := row p1 + 1, col := 0\<rparr>)
                       else (Inr (Some c), p1)))"

text \<open>
  The cursor of a pyramid that was built by the constructor and only moved by
  \<open>next_card\<close>: it points at a cell, or just past the last row, and no row is empty.
\<close>

definition exhausted :: "pyramid \<Rightarrow> bool" where
  "exhausted p \<longleftrightarrow> row p \<ge> int (length (rows p))"

definition pyramid_ok :: "pyramid \<Rightarrow> bool" where
  "pyramid_ok p \<longleftrightarrow>
     0 \<le> row p \<and> 0 \<le> col p \<and> [] \<notin> set (rows p) \<and>
     (row p < int (length (rows p)) \<longrightarrow> col p < int (length (rows p ! nat (row p))))"

text \<open>The cards still to come, in the order \<open>next_card\<close> hands them out.\<close>

definition pending :: "pyramid \<Rightarrow> card list" where
  "pending p = drop (nat (col p)) (concat (drop (nat (row p)) (rows p)))"

subsection \<open>Game\<close>

record game =
  players :: "ref list"
  deck :: deck
  pyramid :: pyramid
  rest_stapel :: "card list"

text \<open>\<open>[Player(name) for name in player_names]\<close>\<close>

fun new_players :: "world \<Rightarrow> string list \<Rightarrow> ref list \<times> world" where
  "new_players w [] = ([], w)"
| "new_players w (nm # nms) =
     (case new_player w nm of (r, w1) \<Rightarrow>
        case new_players w1 nms of (rs, w2) \<Rightarrow> (r # rs, w2))"

text \<open>\<open>for player in self.players: player.receive(self.deck.deal(4))\<close>\<close>

fun deal_hands :: "world \<Rightarrow> deck \<Rightarrow> ref list \<Rightarrow> (error + unit) \<times> world \<times> deck" where
  "deal_hands w d [] = (Inr (), w, d)"
| "deal_hands w d (r # rs) =
     (case deal d 4 of
        (Inl e, d1) \<Rightarrow> (Inl e, w, d1)
      | (Inr cs, d1) \<Rightarrow> deal_hands (receive_at w r cs) d1 rs)"

definition Game_init ::
  "(card list \<Rightarrow> card list) \<Rightarrow> world \<Rightarrow> string list \<Rightarrow> (error + game) \<times> world" where
  "Game_init sh w player_names =
     (if \<not> (2 \<le> length player_names \<and> length player_names \<le> 12)
      then (Inl (ValueError ''minstens 2, max 12 spelers voor 4 kaarten pp''), w)
      else case new_players w player_names of (ps, w1) \<Rightarrow>
        (case Deck_init of
           Inl e \<Rightarrow> (Inl e, w1)
         | Inr d0 \<Rightarrow>
            (case deal_hands w1 (shuffle sh d0) ps of
               (Inl e, w2, d2) \<Rightarrow> (Inl e, w2)
             | (Inr u, w2, d2) \<Rightarrow>
                (case max_pyramid_rows (int (length (cards d2))) of
                   Inl e \<Rightarrow> (Inl e, w2)
                 | Inr n \<Rightarrow>
                    (case deal d2 (n * (n + 1) div 2) of
                       (Inl e, d3) \<Rightarrow> (Inl e, w2)
                     | (Inr pyramid_cards, d3) \<Rightarrow>
                        (case deal d3 (int (length (cards d3))) of
                           (Inl e, d4) \<Rightarrow> (Inl e, w2)
                         | (Inr rest, d4) \<Rightarrow>
                            (Inr \<lparr>players = ps, deck = d4,
                                  pyramid = Pyramid_init pyramid_cards n,
                                  rest_stapel = rest\<rparr>, w2)))))))"

definition reveal_next_card :: "game \<Rightarrow> (error + card option) \<times> game" where
  "reveal_next_card g = (case next_card (pyramid g) of (res, p) \<Rightarrow> (res, g\<lparr>pyramid := p\<rparr>))"

text \<open>\<open>k\<close> calls of \<open>reveal_next_card\<close> in a row, with what each of them returned.\<close>

fun reveal_many :: "nat \<Rightarrow> game \<Rightarrow> (error + card option) list \<times> game" where
  "reveal_many 0 g = ([], g)"
| "reveal_many (Suc k) g =
     (case reveal_next_card g of (res, g1) \<Rightarrow>
        case reveal_many k g1 of (rest, g2) \<Rightarrow> (res # rest, g2))"

text \<open>
  \<open>play_turn\<close> returns its result with the heap and the game as they are when it returns
  or raises. \<open>f"{target.name} drinkt 1"\<close> is the name followed by the text.
\<close>

definition play_turn ::
  "world \<Rightarrow> game \<Rightarrow> ref option \<Rightarrow> ref option \<Rightarrow> int option \<Rightarrow> bool
     \<Rightarrow> (error + card \<times> string option) \<times> world \<times> game" where
  "play_turn w g claimer target chosen_index target_believes =
     (case reveal_next_card g of
        (Inl e, g1) \<Rightarrow> (Inl e, w, g1)
      | (Inr None, g1) \<Rightarrow> (Inl (RuntimeError ''No more cards in the pyramid''), w, g1)
      | (Inr (Some c), g1) \<Rightarrow>
          if claimer = None \<or> target = None \<or> chosen_index = None
          then (Inr (c, None), w, g1)
          else if target_believes
          then let w1 = drink_at w (the target) 1
               in (Inr (c, Some (name (heap w1 (the target)) @ '' drinkt 1'')), w1, g1)
          else (case reveal_at w (the claimer) (the chosen_index) of
                  (Inl e, w1) \<Rightarrow> (Inl e, w1, g1)
                | (Inr shown, w1) \<Rightarrow>
                    if rank shown = rank c
                    then let w2 = drink_at w1 (the target) 2
                         in (Inr (c, Some (name (heap w2 (the target)) @ '' drinkt 2'')), w2, g1)
                    else let w2 = drink_at w1 (the claimer) 2
                         in (Inr (c, Some (name (heap w2 (the claimer)) @ '' drinkt 2'')), w2, g1)))"

subsection \<open>Persistence\<close>

text \<open>
  The document that \<open>json.dumps\<close> writes and \<open>json.loads\<close> reads back. Of JSON only the
  four kinds of value that \<open>save_game\<close> produces are modelled, and a file holds the
  document, not its text: \<open>json.loads(json.dumps(d))\<close> is taken to return \<open>d\<close>, with
  every tuple read back as a list.
\<close>

datatype json =
    JStr string
  | JInt int
  | JList "json list"
  | JDict "(string \<times> json) list"

type_synonym files = "string \<Rightarrow> json option"

definition bind_err :: "error + 'a \<Rightarrow> ('a \<Rightarrow> error + 'b) \<Rightarrow> error + 'b" where
  "bind_err m f = (case m of Inl e \<Rightarrow> Inl e | Inr x \<Rightarrow> f x)"

text \<open>A list comprehension whose body may raise: the first exception ends it.\<close>

fun map_err :: "('a \<Rightarrow> error + 'b) \<Rightarrow> 'a list \<Rightarrow> error + 'b list" where
  "map_err f [] = Inr []"
| "map_err f (x # xs) =
     bind_err (f x) (\<lambda>y. bind_err (map_err f xs) (\<lambda>ys. Inr (y # ys)))"

text \<open>
  \<open>d[key]\<close>, and the places where the loader needs a list, an integer or a string.
  A value of another kind than the one \<open>save_game\<close> writes there is reported as
  \<open>TypeError\<close>.
\<close>

definition dict_get :: "json \<Rightarrow> string \<Rightarrow> error + json" where
  "dict_get j k =
     (case j of
        JDict kvs \<Rightarrow> (case map_of kvs k of None \<Rightarrow> Inl (KeyError k) | Some v \<Rightarrow> Inr v)
      | _ \<Rightarrow> Inl TypeError)"

definition as_list :: "json \<Rightarrow> error + json list" where
  "as_list j = (case j of JList xs \<Rightarrow> Inr xs | _ \<Rightarrow> Inl TypeError)"

definition as_int :: "json \<Rightarrow> error + int" where
  "as_int j = (case j of JInt n \<Rightarrow> Inr n | _ \<Rightarrow> Inl TypeError)"

definition as_str :: "json \<Rightarrow> error + string" where
  "as_str j = (case j of JStr s \<Rightarrow> Inr s | _ \<Rightarrow> Inl TypeError)"

definition card_to_tuple :: "card \<Rightarrow> json" where
  "card_to_tuple c = JList [JStr (rank c), JStr (suit c)]"

text \<open>\<open>rank, suit = data\<close> raises \<open>ValueError\<close> unless \<open>data\<close> has two items.\<close>

definition card_from_tuple :: "json \<Rightarrow> error + card" where
  "card_from_tuple data =
     bind_err (as_list data) (\<lambda>items.
       case items of
         [r, s] \<Rightarrow> bind_err (as_str r) (\<lambda>r'. bind_err (as_str s) (\<lambda>s'.
                     Inr \<lparr>rank = r', suit = s'\<rparr>))
       | _ \<Rightarrow> Inl (ValueError ''wrong number of values to unpack''))"

text \<open>
  \<open>list(p.revealed_indices)\<close> lists a set in the order of its hash table; the order is
  the parameter \<open>enum\<close>.
\<close>

definition player_to_json :: "(int set \<Rightarrow> int list) \<Rightarrow> player \<Rightarrow> json" where
  "player_to_json enum p =
     JDict [(''name'', JStr (name p)),
            (''hand'', JList (map card_to_tuple (hand p))),
            (''revealed'', JList (map JInt (enum (revealed_indices p)))),
            (''drinks_taken'', JInt (drinks_taken p))]"

definition game_to_json :: "(int set \<Rightarrow> int list) \<Rightarrow> world \<Rightarrow> game \<Rightarrow> json" where
  "game_to_json enum w g =
     JDict [(''players'', JList (map (\<lambda>r. player_to_json enum (heap w r)) (players g))),
            (''pyramid'',
               JDict [(''rows'',
                         JList (map (\<lambda>rw. JList (map card_to_tuple rw)) (rows (pyramid g)))),
                      (''pos'', JDict [(''row'', JInt (row (pyramid g))),
                                       (''col'', JInt (col (pyramid g)))])]),
            (''rest_stapel'', JList (map card_to_tuple (rest_stapel g)))]"

definition save_game ::
  "(int set \<Rightarrow> int list) \<Rightarrow> world \<Rightarrow> files \<Rightarrow> game \<Rightarrow> string \<Rightarrow> files" where
  "save_game enum w fs g filename = fs(filename \<mapsto> game_to_json enum w g)"

definition decode_cards :: "json \<Rightarrow> error + card list" where
  "decode_cards j = bind_err (as_list j) (map_err card_from_tuple)"

text \<open>
  The loop over \<open>zip(data["players"], game.players)\<close>: three assignments per player, each
  made as soon as its right-hand side has been read.
\<close>

fun restore_players :: "world \<Rightarrow> json list \<Rightarrow> ref list \<Rightarrow> (error + unit) \<times> world" where
  "restore_players w (p_data # pds) (r # rs) =
     (case bind_err (dict_get p_data ''hand'') decode_cards of
        Inl e \<Rightarrow> (Inl e, w)
      | Inr h \<Rightarrow>
         let w1 = w\<lparr>heap := (heap w)(r := (heap w r)\<lparr>hand := h\<rparr>)\<rparr>
         in (case bind_err (dict_get p_data ''revealed'')
                    (\<lambda>j. bind_err (as_list j) (map_err as_int)) of
               Inl e \<Rightarrow> (Inl e, w1)
             | Inr ixs \<Rightarrow>
                let w2 = w1\<lparr>heap := (heap w1)(r := (heap w1 r)\<lparr>revealed_indices := set ixs\<rparr>)\<rparr>
                in (case bind_err (dict_get p_data ''drinks_taken'') as_int of
                      Inl e \<Rightarrow> (Inl e, w2)
                    | Inr n \<Rightarrow>
                       restore_players
                         (w2\<lparr>heap := (heap w2)(r := (heap w2 r)\<lparr>drinks_taken := n\<rparr>)\<rparr>)
                         pds rs)))"
| "restore_players w _ _ = (Inr (), w)"

text \<open>
  What \<open>load_game\<close> does after the players: the pyramid is built from the flattened rows
  and its rows and cursor are then overwritten, and the rest stack is replaced.
\<close>

definition restore_board :: "json \<Rightarrow> game \<Rightarrow> error + game" where
  "restore_board data g =
     bind_err (dict_get data ''pyramid'') (\<lambda>pyr.
     bind_err (dict_get pyr ''rows'') (\<lambda>rows_json.
     bind_err (as_list rows_json) (\<lambda>rows_data.
     bind_err (map_err decode_cards rows_data) (\<lambda>rws.
       let g1 = g\<lparr>pyramid := Pyramid_init (concat rws) (int (length rows_data))\<rparr>;
           g2 = g1\<lparr>pyramid := (pyramid g1)\<lparr>rows := rws\<rparr>\<rparr>
       in bind_err (dict_get pyr ''pos'') (\<lambda>pos.
          bind_err (bind_err (dict_get pos ''row'') as_int) (\<lambda>rw.
          let g3 = g2\<lparr>pyramid := (pyramid g2)\<lparr>row := rw\<rparr>\<rparr>
          in bind_err (bind_err (dict_get pos ''col'') as_int) (\<lambda>cl.
             let g4 = g3\<lparr>pyramid := (pyramid g3)\<lparr>col := cl\<rparr>\<rparr>
             in bind_err (bind_err (dict_get data ''rest_stapel'') decode_cards) (\<lambda>rest.
                Inr (g4\<lparr>rest_stapel := rest\<rparr>)))))))))"

definition load_game ::
  "(card list \<Rightarrow> card list) \<Rightarrow> world \<Rightarrow> files \<Rightarrow> string \<Rightarrow> (error + game) \<times> world" where
  "load_game sh w fs filename =
     (case fs filename of
        None \<Rightarrow> (Inl FileNotFoundError, w)
      | Some data \<Rightarrow>
         (case bind_err (dict_get data ''players'') as_list of
            Inl e \<Rightarrow> (Inl e, w)
          | Inr pds \<Rightarrow>
             (case map_err (\<lambda>p. bind_err (dict_get p ''name'') as_str) pds of
                Inl e \<Rightarrow> (Inl e, w)
              | Inr names \<Rightarrow>
                 (case Game_init sh w names of
                    (Inl e, w1) \<Rightarrow> (Inl e, w1)
                  | (Inr g, w1) \<Rightarrow>
                     (case restore_players w1 pds (players g) of
                        (Inl e, w2) \<Rightarrow> (Inl e, w2)
                      | (Inr u, w2) \<Rightarrow> (restore_board data g, w2))))))"

subsection \<open>A two-player game to evaluate on\<close>

definition c_7h :: card where "c_7h = \<lparr>rank = ''7'', suit = ''hearts''\<rparr>"
definition c_7s :: card where "c_7s = \<lparr>rank = ''7'', suit = ''spades''\<rparr>"
definition c_Kc :: card where "c_Kc = \<lparr>rank = ''K'', suit = ''clubs''\<rparr>"
definition c_2d :: card where "c_2d = \<lparr>rank = ''2'', suit = ''diamonds''\<rparr>"
definition c_Qh :: card where "c_Qh = \<lparr>rank = ''Q'', suit = ''hearts''\<rparr>"

definition anna :: player where
  "anna = \<lparr>name = ''Anna'', hand = [c_7s, c_Kc, c_2d, c_Qh], revealed_indices = {},
           drinks_taken = 0\<rparr>"

definition bram :: player where
  "bram = \<lparr>name = ''Bram'', hand = [c_Kc, c_2d, c_Qh, c_7h], revealed_indices = {1},
           drinks_taken = 3\<rparr>"

definition ex_world :: world where
  "ex_world = \<lparr>heap = (\<lambda>r. if r = 0 then anna else bram), next_ref = 2\<rparr>"

definition ex_game :: game where
  "ex_game = \<lparr>players = [0, 1], deck = \<lparr>cards = []\<rparr>,
              pyramid = Pyramid_init [c_7h, c_Kc, c_2d] 2, rest_stapel = [c_Qh]\<rparr>"

text \<open>The same game after its three pyramid cards have been revealed.\<close>

definition ex_game_over :: game where
  "ex_game_over = ex_game\<lparr>pyramid := (pyramid ex_game)\<lparr>row := 2, col := 0\<rparr>\<rparr>"

section \<open>Properties\<close>

subsection \<open>The integer square root and the row count\<close>

declare isqrt_nat.simps [simp del]

lemma isqrt_nat_bounds:
  "isqrt_nat n * isqrt_nat n \<le> n \<and> n < (isqrt_nat n + 1) * (isqrt_nat n + 1)"
proof (induction n rule: isqrt_nat.induct)
  case (1 n)
  show ?case
  proof (cases "n = 0")
    case True
    then show ?thesis by (simp add: isqrt_nat.simps)
  next
    case False
    define s where "s = isqrt_nat (n div 4)"
    from 1 False have lo: "s * s \<le> n div 4" and hi: "n div 4 < (s + 1) * (s + 1)"
      by (simp_all add: s_def)
    have a: "(2 * s) * (2 * s) \<le> n"
    proof -
      have "4 * (s * s) \<le> 4 * (n div 4)" using lo by simp
      also have "\<dots> \<le> n" by simp
      finally show ?thesis by (simp add: algebra_simps)
    qed
    have b: "n < (2 * s + 2) * (2 * s + 2)"
    proof -
      have "n div 4 + 1 \<le> (s + 1) * (s + 1)" using hi by simp
      then have "4 * (n div 4) + 4 \<le> 4 * ((s + 1) * (s + 1))" by simp
      moreover have "n < 4 * (n div 4) + 4" by presburger
      ultimately show ?thesis by (simp add: algebra_simps)
    qed
    show ?thesis
      using a b False
      by (subst (1 2 3 4) isqrt_nat.simps) (simp add: Let_def s_def [symmetric])
  qed
qed

lemma isqrt_int_bounds:
  assumes "0 \<le> n"
  shows "\<exists>s. isqrt n = Inr s \<and> 0 \<le> s \<and> s * s \<le> n \<and> n < (s + 1) * (s + 1)"
proof -
  let ?s = "isqrt_nat (nat n)"
  have "?s * ?s \<le> nat n" "nat n < (?s + 1) * (?s + 1)"
    using isqrt_nat_bounds [of "nat n"] by simp_all
  then have "int (?s * ?s) \<le> n" "n < int ((?s + 1) * (?s + 1))"
    using assms by linarith+
  then have "int ?s * int ?s \<le> n" "n < (int ?s + 1) * (int ?s + 1)"
    by (simp_all add: algebra_simps)
  then show ?thesis using assms by (simp add: isqrt_def)
qed

lemma tri_twice: "2 * (k * (k + 1) div 2) = k * (k + 1)" for k :: int
proof -
  have "even (k * (k + 1))" by simp
  then show ?thesis by simp
qed

lemma tri_le_iff:
  "k * (k + 1) div 2 \<le> r \<longleftrightarrow> (2 * k + 1) * (2 * k + 1) \<le> 8 * r + 1" for k r :: int
proof -
  define t where "t = k * (k + 1) div 2"
  have t: "k * (k + 1) = 2 * t" unfolding t_def by (simp only: tri_twice)
  have "(2 * k + 1) * (2 * k + 1) = 4 * (k * (k + 1)) + 1" by (simp add: algebra_simps)
  also have "\<dots> = 8 * t + 1" by (simp only: t)
  finally have "(2 * k + 1) * (2 * k + 1) = 8 * t + 1" .
  then show ?thesis unfolding t_def [symmetric] by simp
qed

lemma max_pyramid_rows_spec:
  assumes "0 \<le> remaining"
  shows "\<exists>R. max_pyramid_rows remaining = Inr R \<and> 0 \<le> R \<and> R * (R + 1) div 2 \<le> remaining
            \<and> (\<forall>k. k * (k + 1) div 2 \<le> remaining \<longrightarrow> k \<le> R)"
proof -
  have "0 \<le> 8 * remaining + 1" using assms by simp
  from isqrt_int_bounds [OF this] obtain s where
    s: "isqrt (8 * remaining + 1) = Inr s" "0 \<le> s" "s * s \<le> 8 * remaining + 1"
       "8 * remaining + 1 < (s + 1) * (s + 1)" by blast
  define R where "R = (s - 1) div 2"
  have s1: "1 \<le> s"
  proof (rule ccontr)
    assume "\<not> 1 \<le> s" with s(2) have "s = 0" by simp
    with s(4) assms show False by simp
  qed
  have R0: "0 \<le> R" using s1 by (simp add: R_def)
  have lo: "2 * R + 1 \<le> s" and hi: "s + 1 \<le> 2 * R + 3" unfolding R_def by presburger+
  have "(2 * R + 1) * (2 * R + 1) \<le> s * s"
    using lo R0 by (intro mult_mono) simp_all
  with s(3) have le: "R * (R + 1) div 2 \<le> remaining" by (simp only: tri_le_iff)
  have mx: "k \<le> R" if k: "k * (k + 1) div 2 \<le> remaining" for k
  proof (rule ccontr)
    assume "\<not> k \<le> R"
    then have "s + 1 \<le> 2 * k + 1" using hi by simp
    then have "(s + 1) * (s + 1) \<le> (2 * k + 1) * (2 * k + 1)"
      using s(2) by (intro mult_mono) simp_all
    moreover from k have "(2 * k + 1) * (2 * k + 1) \<le> 8 * remaining + 1"
      by (simp only: tri_le_iff)
    ultimately show False using s(4) by simp
  qed
  show ?thesis using s(1) R0 le mx by (simp add: max_pyramid_rows_def R_def)
qed

text \<open>
  C3. For every non-negative \<open>remaining\<close>, the closed form
  \<open>(isqrt(8 * remaining + 1) - 1) // 2\<close> that \<open>_max_pyramid_rows\<close> computes on exact
  integers is the largest integer \<open>R\<close> with \<open>R(R+1)/2 \<le> remaining\<close>: it satisfies
  the bound, and every integer that satisfies the bound is at most \<open>R\<close>.
\<close>

theorem max_pyramid_rows_largest:
  assumes "0 \<le> remaining"
  shows "\<exists>R. max_pyramid_rows remaining = Inr R
            \<and> R * (R + 1) div 2 \<le> remaining
            \<and> (\<forall>k. k * (k + 1) div 2 \<le> remaining \<longrightarrow> k \<le> R)"
  using max_pyramid_rows_spec [OF assms] by blast

theorem max_pyramid_rows_largest_witness:
  "(0::int) \<le> 40 \<and> max_pyramid_rows 40 = Inr 8 \<and> (8::int) * (8 + 1) div 2 \<le> 40
     \<and> \<not> (9::int) * (9 + 1) div 2 \<le> 40"
proof -
  have e: "max_pyramid_rows 40 = Inr 8"
    by (simp add: max_pyramid_rows_def isqrt_def isqrt_nat.simps Let_def)
  from max_pyramid_rows_largest [of 40] e show ?thesis by simp
qed

subsection \<open>Dealing and revealing with a negative argument\<close>

lemma deal_some:
  assumes "0 \<le> n" "n \<le> int (length (cards d))"
  shows "deal d n = (Inr (take (nat n) (cards d)), d\<lparr>cards := drop (nat n) (cards d)\<rparr>)"
  using assms by (simp add: deal_def slice_to_def del_slice_to_def slice_bound_def)

text \<open>
  C10. For a deck of \<open>L\<close> cards and a negative \<open>n\<close> with \<open>-L \<le> n\<close>, \<open>deal(n)\<close> does not
  raise: it returns the first \<open>L + n\<close> cards and removes them, so that the last \<open>|n|\<close>
  cards stay in the deck.
\<close>

theorem deal_negative:
  assumes "n < 0" "- int (length (cards d)) \<le> n"
  shows "deal d n = (Inr (take (nat (int (length (cards d)) + n)) (cards d)),
                     d\<lparr>cards := drop (nat (int (length (cards d)) + n)) (cards d)\<rparr>)
         \<and> int (length (cards (snd (deal d n)))) = - n"
  using assms by (simp add: deal_def slice_to_def del_slice_to_def slice_bound_def)

theorem deal_negative_witness:
  "(- 1 :: int) < 0 \<and> - int (length (cards \<lparr>cards = [c_7h, c_Kc, c_2d]\<rparr>)) \<le> - 1
   \<and> deal \<lparr>cards = [c_7h, c_Kc, c_2d]\<rparr> (- 1) = (Inr [c_7h, c_Kc], \<lparr>cards = [c_2d]\<rparr>)"
  using deal_negative [of "- 1" "\<lparr>cards = [c_7h, c_Kc, c_2d]\<rparr>"] by simp

text \<open>
  C9, as the code has it. For a player with four cards, \<open>reveal(index)\<close> records the index
  and returns the card at that index when \<open>0 \<le> index \<le> 3\<close>; for \<open>-4 \<le> index \<le> -1\<close> it
  records the index as given and returns the card at \<open>4 + index\<close>; for any other index
  it raises \<open>IndexError\<close>.
\<close>

theorem reveal_bounds:
  assumes "length (hand p) = 4"
  shows "(0 \<le> index \<and> index \<le> 3 \<longrightarrow>
            reveal p index = (Inr (hand p ! nat index),
                              p\<lparr>revealed_indices := insert index (revealed_indices p)\<rparr>))
       \<and> (- 4 \<le> index \<and> index \<le> - 1 \<longrightarrow>
            reveal p index = (Inr (hand p ! nat (4 + index)),
                              p\<lparr>revealed_indices := insert index (revealed_indices p)\<rparr>))
       \<and> (index < - 4 \<or> 3 < index \<longrightarrow> fst (reveal p index) = Inl IndexError)"
  using assms by (auto simp add: reveal_def py_index_def Let_def)

theorem reveal_bounds_witness:
  "length (hand anna) = 4
   \<and> reveal anna 2 = (Inr c_2d, anna\<lparr>revealed_indices := {2}\<rparr>)
   \<and> reveal anna (- 3) = (Inr c_Kc, anna\<lparr>revealed_indices := {- 3}\<rparr>)
   \<and> fst (reveal anna 4) = Inl IndexError \<and> fst (reveal anna (- 5)) = Inl IndexError"
proof -
  have l: "length (hand anna) = 4" by (simp add: anna_def)
  have h: "hand anna ! 2 = c_2d" "hand anna ! 1 = c_Kc" "revealed_indices anna = {}"
    by (simp_all add: anna_def)
  from reveal_bounds [OF l, of 2] reveal_bounds [OF l, of "- 3"]
       reveal_bounds [OF l, of 4] reveal_bounds [OF l, of "- 5"] l h
  show ?thesis by simp
qed

text \<open>
  The claim that \<open>reveal\<close> fails for every negative index is false: index \<open>-1\<close> of a
  four-card hand returns the last card.
\<close>

theorem reveal_negative_counterexample:
  "length (hand anna) = 4 \<and> fst (reveal anna (- 1)) = Inr c_Qh \<and> \<not> isl (fst (reveal anna (- 1)))"
  by (simp add: reveal_def py_index_def anna_def Let_def)

text \<open>
  C7 at an index outside the hand: \<open>reveal\<close> raises \<open>IndexError\<close> after it has recorded
  the index, and \<open>play_turn\<close>, which calls it, raises with the claimer's set changed.
\<close>

theorem reveal_fails_after_mutation:
  "reveal anna 4 = (Inl IndexError, anna\<lparr>revealed_indices := {4}\<rparr>)
   \<and> fst (play_turn ex_world ex_game (Some 0) (Some 1) (Some 4) False) = Inl IndexError
   \<and> revealed_indices (heap ex_world 0) = {}
   \<and> revealed_indices
       (heap (fst (snd (play_turn ex_world ex_game (Some 0) (Some 1) (Some 4) False))) 0) = {4}"
  by (simp add: reveal_def py_index_def anna_def Let_def play_turn_def reveal_next_card_def
      next_card_def ex_game_def ex_world_def Pyramid_init_def py_slice_def slice_bound_def
      reveal_at_def numeral_2_eq_2)

subsection \<open>The rows and the cursor of the pyramid\<close>

lemma tri_Suc: "Suc k * (Suc k + 1) div 2 = Suc k + k * (k + 1) div 2"
proof -
  have "Suc k * (Suc k + 1) = 2 * Suc k + k * (k + 1)" by simp
  then show ?thesis by (metis div_mult_self4 zero_neq_numeral)
qed

lemma py_slice_inside:
  assumes "0 \<le> a" "nat a + n \<le> length xs"
  shows "py_slice xs a (a + int n) = take n (drop (nat a) xs)"
proof -
  have "slice_bound (length xs) a = nat a"
    using assms by (simp add: slice_bound_def)
  moreover have "slice_bound (length xs) (a + int n) = nat a + n"
    using assms by (simp add: slice_bound_def nat_add_distrib)
  ultimately show ?thesis by (simp add: py_slice_def)
qed

lemma build_rows_exact:
  assumes "0 \<le> idx" "nat idx + k * (k + 1) div 2 \<le> length cs"
  shows "concat (build_rows cs idx k) = take (k * (k + 1) div 2) (drop (nat idx) cs)
       \<and> map length (build_rows cs idx k) = rev [1..<Suc k]
       \<and> [] \<notin> set (build_rows cs idx k)"
  using assms
proof (induction k arbitrary: idx)
  case 0
  then show ?case by simp
next
  case (Suc k)
  let ?t = "k * (k + 1) div 2"
  have room: "nat idx + (Suc k + ?t) \<le> length cs"
    using Suc.prems(2) by (simp only: tri_Suc)
  then have sl: "py_slice cs idx (idx + int (Suc k)) = take (Suc k) (drop (nat idx) cs)"
    using Suc.prems(1) by (intro py_slice_inside) simp_all
  have nx: "nat (idx + int (Suc k)) = nat idx + Suc k"
    using Suc.prems(1) by (simp add: nat_add_distrib)
  have ih: "concat (build_rows cs (idx + int (Suc k)) k)
              = take ?t (drop (nat (idx + int (Suc k))) cs)
          \<and> map length (build_rows cs (idx + int (Suc k)) k) = rev [1..<Suc k]
          \<and> [] \<notin> set (build_rows cs (idx + int (Suc k)) k)"
    using Suc.prems(1) room by (intro Suc.IH) (simp_all add: nx)
  have len: "length (take (Suc k) (drop (nat idx) cs)) = Suc k"
    using room by simp
  have cc: "concat (build_rows cs idx (Suc k)) = take (Suc k + ?t) (drop (nat idx) cs)"
    using ih by (simp only: build_rows.simps concat.simps sl nx take_add drop_drop add.commute)
  have ne: "take (Suc k) (drop (nat idx) cs) \<noteq> []"
    using len by (metis length_0_conv nat.distinct(1))
  have c1: "concat (build_rows cs idx (Suc k))
              = take (Suc k * (Suc k + 1) div 2) (drop (nat idx) cs)"
    by (simp only: tri_Suc cc)
  have br: "build_rows cs idx (Suc k)
              = take (Suc k) (drop (nat idx) cs) # build_rows cs (idx + int (Suc k)) k"
    by (simp only: build_rows.simps sl)
  have up: "rev [1..<Suc (Suc k)] = Suc k # rev [1..<Suc k]" by simp
  have c2: "map length (build_rows cs idx (Suc k)) = rev [1..<Suc (Suc k)]"
    using ih len by (simp only: br up list.map)
  have c3: "[] \<notin> set (build_rows cs idx (Suc k))"
    using ih ne by (simp only: br) auto
  from c1 c2 c3 show ?case by blast
qed

lemma next_card_exhausted:
  "exhausted p \<Longrightarrow> next_card p = (Inr None, p)"
  by (simp add: next_card_def exhausted_def)

lemma pending_exhausted:
  "pyramid_ok p \<Longrightarrow> exhausted p \<Longrightarrow> pending p = []"
  by (simp add: pending_def exhausted_def pyramid_ok_def)

lemma next_card_step:
  assumes ok: "pyramid_ok p" and ne: "\<not> exhausted p"
  shows "\<exists>c p'. next_card p = (Inr (Some c), p') \<and> pending p = c # pending p'
               \<and> pyramid_ok p' \<and> rows p' = rows p"
proof -
  define i where "i = nat (row p)"
  define j where "j = nat (col p)"
  define cur where "cur = rows p ! i"
  have r: "row p = int i" "col p = int j"
    using ok by (simp_all add: pyramid_ok_def i_def j_def)
  have i: "i < length (rows p)"
    using ne r by (simp add: exhausted_def)
  have j: "j < length cur"
    using ok i r by (simp add: pyramid_ok_def cur_def)
  have nonempty: "[] \<notin> set (rows p)" using ok by (simp add: pyramid_ok_def)
  have ix1: "py_index (rows p) (int i) = Inr cur"
    using i by (simp add: py_index_def cur_def)
  have ix2: "py_index cur (int j) = Inr (cur ! j)"
    using j by (simp add: py_index_def)
  have split: "drop i (rows p) = cur # drop (Suc i) (rows p)"
    using i by (simp add: cur_def Cons_nth_drop_Suc)
  have pend: "pending p = cur ! j # (drop (Suc j) cur @ concat (drop (Suc i) (rows p)))"
    using j by (simp add: pending_def r split Cons_nth_drop_Suc)
  show ?thesis
  proof (cases "Suc j < length cur")
    case True
    let ?p' = "p\<lparr>col := col p + 1\<rparr>"
    have "next_card p = (Inr (Some (cur ! j)), ?p')"
      using True i by (simp add: next_card_def ix1 ix2 r Let_def)
    moreover have "pending ?p' = drop (Suc j) cur @ concat (drop (Suc i) (rows p))"
      using True by (simp add: pending_def r split nat_add_distrib)
    moreover have "pyramid_ok ?p'"
      using True ok i by (simp add: pyramid_ok_def r cur_def)
    ultimately show ?thesis using pend by simp
  next
    case False
    let ?p' = "p\<lparr>col := col p + 1, row := row p + 1, col := 0\<rparr>"
    have "next_card p = (Inr (Some (cur ! j)), ?p')"
      using False i by (simp add: next_card_def ix1 ix2 r Let_def)
    moreover have "pending ?p' = drop (Suc j) cur @ concat (drop (Suc i) (rows p))"
      using False by (simp add: pending_def r nat_add_distrib)
    moreover have "pyramid_ok ?p'"
    proof -
      have "rows p ! Suc i \<noteq> []" if "Suc i < length (rows p)"
        using that nonempty by (metis nth_mem)
      then show ?thesis by (auto simp add: pyramid_ok_def r nat_add_distrib nonempty)
    qed
    ultimately show ?thesis using pend by simp
  qed
qed

lemma pending_Nil_iff:
  assumes "pyramid_ok p"
  shows "pending p = [] \<longleftrightarrow> exhausted p"
  using next_card_step [OF assms] pending_exhausted [OF assms] by fastforce

subsection \<open>Revealing the pyramid\<close>

lemma reveal_next_card_exhausted:
  "exhausted (pyramid g) \<Longrightarrow> reveal_next_card g = (Inr None, g)"
  by (simp add: reveal_next_card_def next_card_exhausted)

lemma reveal_next_card_step:
  assumes "pyramid_ok (pyramid g)" "\<not> exhausted (pyramid g)"
  shows "\<exists>c p'. reveal_next_card g = (Inr (Some c), g\<lparr>pyramid := p'\<rparr>)
               \<and> pending (pyramid g) = c # pending p' \<and> pyramid_ok p' \<and> rows p' = rows (pyramid g)"
  using next_card_step [OF assms] by (auto simp add: reveal_next_card_def)

lemma reveal_many_pending:
  assumes "pyramid_ok (pyramid g)"
  shows "fst (reveal_many k g)
           = map (\<lambda>c. Inr (Some c)) (take k (pending (pyramid g)))
             @ replicate (k - length (pending (pyramid g))) (Inr None)
       \<and> pyramid_ok (pyramid (snd (reveal_many k g)))
       \<and> pending (pyramid (snd (reveal_many k g))) = drop k (pending (pyramid g))"
  using assms
proof (induction k arbitrary: g)
  case 0
  then show ?case by simp
next
  case (Suc k)
  show ?case
  proof (cases "exhausted (pyramid g)")
    case True
    then have e: "pending (pyramid g) = []"
      using Suc.prems by (simp add: pending_exhausted)
    from Suc.IH [OF Suc.prems] e True show ?thesis
      by (simp add: reveal_next_card_exhausted split_beta)
  next
    case False
    from reveal_next_card_step [OF Suc.prems False] obtain c p' where
      st: "reveal_next_card g = (Inr (Some c), g\<lparr>pyramid := p'\<rparr>)"
          "pending (pyramid g) = c # pending p'" "pyramid_ok p'" by blast
    have "pyramid_ok (pyramid (g\<lparr>pyramid := p'\<rparr>))" using st(3) by simp
    from Suc.IH [OF this] st(1,2) show ?thesis
      by (simp add: split_beta)
  qed
qed

lemma tri_int: "int k * (int k + 1) div 2 = int (k * (k + 1) div 2)"
proof -
  have "int (k * (k + 1) div 2) = int (k * (k + 1)) div 2" by (simp only: zdiv_int of_nat_numeral)
  also have "int (k * (k + 1)) = int k * (int k + 1)" by (simp add: algebra_simps)
  finally show ?thesis by simp
qed

lemma Pyramid_init_exact:
  assumes "0 \<le> R" "int (length cs) = R * (R + 1) div 2"
  shows "pyramid_ok (Pyramid_init cs R) \<and> pending (Pyramid_init cs R) = cs
       \<and> concat (rows (Pyramid_init cs R)) = cs
       \<and> map length (rows (Pyramid_init cs R)) = rev [1..<Suc (nat R)]"
proof -
  define k where "k = nat R"
  have R: "R = int k" using assms(1) by (simp add: k_def)
  have len: "length cs = k * (k + 1) div 2"
    using assms(2) unfolding R tri_int by simp
  have "(0::int) \<le> 0" "nat 0 + k * (k + 1) div 2 \<le> length cs" using len by simp_all
  from build_rows_exact [OF this] len have
    b: "concat (build_rows cs 0 k) = cs" "map length (build_rows cs 0 k) = rev [1..<Suc k]"
       "[] \<notin> set (build_rows cs 0 k)" by simp_all
  have ok: "pyramid_ok (Pyramid_init cs R)"
  proof -
    have "build_rows cs 0 k ! 0 \<noteq> []" if "0 < length (build_rows cs 0 k)"
      using that b(3) by (metis nth_mem)
    then show ?thesis using b(3) by (auto simp add: pyramid_ok_def Pyramid_init_def k_def)
  qed
  show ?thesis using ok b by (simp add: Pyramid_init_def pending_def k_def)
qed

text \<open>
  C4. A pyramid built with row count \<open>R\<close> from exactly \<open>R(R+1)/2\<close> cards: the first
  \<open>R(R+1)/2\<close> calls of \<open>reveal_next_card\<close> return the cells of the pyramid, each once,
  bottom row first and every row from left to right (the rows are stored bottom first, so
  this is \<open>concat\<close> of the rows; their lengths are \<open>R, R-1, \<dots>, 1\<close>); every later
  call returns \<open>None\<close> and leaves the game as it is.
\<close>

theorem reveal_all_then_none:
  assumes "0 \<le> R" "int (length cs) = R * (R + 1) div 2" "pyramid g = Pyramid_init cs R"
  shows "fst (reveal_many (length cs + m) g)
           = map (\<lambda>c. Inr (Some c)) (concat (rows (pyramid g))) @ replicate m (Inr None)
       \<and> int (length (concat (rows (pyramid g)))) = R * (R + 1) div 2
       \<and> map length (rows (pyramid g)) = rev [1..<Suc (nat R)]
       \<and> reveal_next_card (snd (reveal_many (length cs + m) g))
           = (Inr None, snd (reveal_many (length cs + m) g))"
proof -
  from Pyramid_init_exact [OF assms(1,2)] assms(3) have
    p: "pyramid_ok (pyramid g)" "pending (pyramid g) = cs" "concat (rows (pyramid g)) = cs"
       "map length (rows (pyramid g)) = rev [1..<Suc (nat R)]" by simp_all
  let ?g' = "snd (reveal_many (length cs + m) g)"
  from reveal_many_pending [OF p(1), of "length cs + m"] p(2) have
    r: "fst (reveal_many (length cs + m) g) = map (\<lambda>c. Inr (Some c)) cs @ replicate m (Inr None)"
       "pyramid_ok (pyramid ?g')" "pending (pyramid ?g') = []" by simp_all
  from r(2,3) have "exhausted (pyramid ?g')" by (simp add: pending_Nil_iff)
  then have "reveal_next_card ?g' = (Inr None, ?g')" by (rule reveal_next_card_exhausted)
  with r(1) p(3,4) assms(2) show ?thesis by simp
qed

theorem reveal_all_then_none_witness:
  "(0::int) \<le> 2 \<and> int (length [c_7h, c_Kc, c_2d]) = 2 * (2 + 1) div 2
   \<and> pyramid ex_game = Pyramid_init [c_7h, c_Kc, c_2d] 2
   \<and> fst (reveal_many (length [c_7h, c_Kc, c_2d] + 2) ex_game)
       = [Inr (Some c_7h), Inr (Some c_Kc), Inr (Some c_2d), Inr None, Inr None]
   \<and> rows (pyramid ex_game) = [[c_7h, c_Kc], [c_2d]]"
proof -
  have a: "(0::int) \<le> 2" "int (length [c_7h, c_Kc, c_2d]) = 2 * (2 + 1) div 2"
          "pyramid ex_game = Pyramid_init [c_7h, c_Kc, c_2d] 2"
    by (simp_all add: ex_game_def)
  have rw: "rows (pyramid ex_game) = [[c_7h, c_Kc], [c_2d]]"
    by (simp add: ex_game_def Pyramid_init_def py_slice_def slice_bound_def numeral_2_eq_2)
  have "fst (reveal_many (length [c_7h, c_Kc, c_2d] + 2) ex_game)
          = map (\<lambda>c. Inr (Some c)) (concat (rows (pyramid ex_game))) @ replicate 2 (Inr None)"
    using reveal_all_then_none [OF a, of 2] by blast
  also have "\<dots> = [Inr (Some c_7h), Inr (Some c_Kc), Inr (Some c_2d), Inr None, Inr None]"
    by (simp add: rw numeral_2_eq_2)
  finally show ?thesis using a rw by blast
qed

subsection \<open>Turns\<close>

lemma py_index_error: "py_index xs i = Inl e \<Longrightarrow> e = IndexError"
  by (simp add: py_index_def split: if_splits)

lemma next_card_cases:
  "next_card p = (Inr None, p) \<and> exhausted p
   \<or> (\<exists>p'. next_card p = (Inl IndexError, p')) \<and> \<not> exhausted p
   \<or> (\<exists>c p'. next_card p = (Inr (Some c), p')) \<and> \<not> exhausted p"
proof (cases "exhausted p")
  case True
  then show ?thesis by (simp add: next_card_exhausted)
next
  case False
  then show ?thesis
    by (auto simp add: next_card_def exhausted_def Let_def split: sum.splits dest: py_index_error)
qed

lemma reveal_error: "fst (reveal p i) = Inl e \<Longrightarrow> e = IndexError"
  by (simp add: reveal_def Let_def py_index_error)

text \<open>
  C8. \<open>play_turn\<close> raises the "no more cards" \<open>RuntimeError\<close> exactly when the pyramid is
  already exhausted when it is called (the cursor's row is past the last row). Whenever it
  returns, it returns the card that \<open>reveal_next_card\<close> revealed with an optional outcome,
  and the outcome is absent exactly when the claimer, the target or the chosen index is.
\<close>

theorem play_turn_result:
  "(fst (play_turn w g claimer target chosen_index target_believes)
      = Inl (RuntimeError ''No more cards in the pyramid'') \<longleftrightarrow> exhausted (pyramid g))
   \<and> ((\<exists>m. fst (play_turn w g claimer target chosen_index target_believes)
          = Inl (RuntimeError m)) \<longleftrightarrow> exhausted (pyramid g))
   \<and> (\<forall>c outcome. fst (play_turn w g claimer target chosen_index target_believes)
          = Inr (c, outcome) \<longrightarrow>
          fst (reveal_next_card g) = Inr (Some c)
          \<and> (outcome = None \<longleftrightarrow> claimer = None \<or> target = None \<or> chosen_index = None))"
proof -
  consider (over) "next_card (pyramid g) = (Inr None, pyramid g)" "exhausted (pyramid g)"
    | (bad) p' where "next_card (pyramid g) = (Inl IndexError, p')" "\<not> exhausted (pyramid g)"
    | (card) c p' where "next_card (pyramid g) = (Inr (Some c), p')" "\<not> exhausted (pyramid g)"
    using next_card_cases [of "pyramid g"] by blast
  then show ?thesis
  proof cases
    case over
    then show ?thesis by (simp add: play_turn_def reveal_next_card_def)
  next
    case bad
    then show ?thesis by (simp add: play_turn_def reveal_next_card_def)
  next
    case card
    have r: "e = IndexError" if "reveal q i = (Inl e, q1)" for e q q1 i
      using that reveal_error [of q i e] by simp
    show ?thesis
      using card
      by (auto simp add: play_turn_def reveal_next_card_def reveal_at_def Let_def
          split: prod.splits sum.splits dest: r)
  qed
qed


lemmas ex_defs = ex_game_def ex_game_over_def ex_world_def anna_def bram_def Pyramid_init_def
  py_slice_def slice_bound_def numeral_2_eq_2 c_7h_def c_7s_def c_Kc_def c_2d_def c_Qh_def

lemmas turn_defs = play_turn_def reveal_next_card_def next_card_def reveal_at_def reveal_def
  drink_at_def drink_def py_index_def Let_def exhausted_def pyramid_ok_def

theorem play_turn_result_witness:
  "exhausted (pyramid ex_game_over)
   \<and> fst (play_turn ex_world ex_game_over (Some 0) (Some 1) (Some 0) False)
       = Inl (RuntimeError ''No more cards in the pyramid'')
   \<and> \<not> exhausted (pyramid ex_game)
   \<and> fst (play_turn ex_world ex_game None (Some 1) (Some 0) False) = Inr (c_7h, None)
   \<and> fst (reveal_next_card ex_game) = Inr (Some c_7h)"
proof -
  have a: "exhausted (pyramid ex_game_over)" "\<not> exhausted (pyramid ex_game)"
    by (simp_all add: ex_defs turn_defs)
  have b: "fst (play_turn ex_world ex_game None (Some 1) (Some 0) False) = Inr (c_7h, None)"
    by (simp add: ex_defs turn_defs)
  from play_turn_result [of ex_world ex_game_over "Some 0" "Some 1" "Some 0" False]
       play_turn_result [of ex_world ex_game None "Some 1" "Some 0" False] a b
  show ?thesis by simp
qed

lemma py_index_in_range:
  assumes "- int (length xs) \<le> i" "i < int (length xs)"
  shows "\<exists>x. py_index xs i = Inr x"
  using assms by (simp add: py_index_def)

text \<open>
  C5. On a game whose pyramid is not exhausted, \<open>play_turn\<close> with a claimer, a target and
  an index, and \<open>target_believes = True\<close>, reveals the next card, adds exactly 1 to the
  target's drinks and leaves the claimer's hand and revealed set as they were, for every
  index, inside the hand or not.
\<close>

theorem play_turn_believes:
  assumes "pyramid_ok (pyramid g)" "\<not> exhausted (pyramid g)"
  shows "\<exists>c w' g'.
           play_turn w g (Some cl) (Some tg) (Some ix) True
             = (Inr (c, Some (name (heap w tg) @ '' drinkt 1'')), w', g')
         \<and> (Inr (Some c), g') = reveal_next_card g
         \<and> drinks_taken (heap w' tg) = drinks_taken (heap w tg) + 1
         \<and> hand (heap w' cl) = hand (heap w cl)
         \<and> revealed_indices (heap w' cl) = revealed_indices (heap w cl)"
proof -
  from reveal_next_card_step [OF assms] obtain c p' where
    st: "reveal_next_card g = (Inr (Some c), g\<lparr>pyramid := p'\<rparr>)" by blast
  show ?thesis
    by (simp add: play_turn_def st drink_at_def drink_def Let_def)
qed

theorem play_turn_believes_witness:
  "pyramid_ok (pyramid ex_game) \<and> \<not> exhausted (pyramid ex_game)
   \<and> fst (play_turn ex_world ex_game (Some 0) (Some 1) (Some 9) True)
       = Inr (c_7h, Some ''Bram drinkt 1'')
   \<and> drinks_taken (heap (fst (snd (play_turn ex_world ex_game (Some 0) (Some 1) (Some 9) True))) 1)
       = 4"
proof -
  have a: "pyramid_ok (pyramid ex_game)" "\<not> exhausted (pyramid ex_game)"
    by (simp_all add: ex_defs turn_defs)
  have b: "drinks_taken (heap ex_world 1) = 3" "name (heap ex_world 1) = ''Bram''"
          "fst (reveal_next_card ex_game) = Inr (Some c_7h)"
    by (simp_all add: ex_defs turn_defs)
  from play_turn_believes [OF a, of ex_world 0 1 9] obtain c w' g' where
    t: "play_turn ex_world ex_game (Some 0) (Some 1) (Some 9) True
          = (Inr (c, Some (name (heap ex_world 1) @ '' drinkt 1'')), w', g')"
       "(Inr (Some c), g') = reveal_next_card ex_game"
       "drinks_taken (heap w' 1) = drinks_taken (heap ex_world 1) + 1" by blast
  from t(2) b(3) have "c = c_7h" by (metis fst_conv sum.inject(2) option.inject)
  with t a b show ?thesis by simp
qed

text \<open>
  C1, as the code has it. On a game whose pyramid is not exhausted, with a claimer and a
  target that are two different players and an index inside the claimer's hand (a negative
  index counting from the end), \<open>play_turn\<close> with \<open>target_believes = False\<close> reveals the
  next card; if the rank of the claimer's card at the index equals the rank of that card,
  the target's drinks grow by exactly 2 and the claimer's stay, otherwise the claimer's
  grow by exactly 2 and the target's stay; either way the index is added to the claimer's
  revealed set.
\<close>

theorem play_turn_challenge:
  assumes "pyramid_ok (pyramid g)" "\<not> exhausted (pyramid g)" "cl \<noteq> tg"
    and "- int (length (hand (heap w cl))) \<le> ix" "ix < int (length (hand (heap w cl)))"
  shows "\<exists>c shown outcome w' g'.
           play_turn w g (Some cl) (Some tg) (Some ix) False = (Inr (c, Some outcome), w', g')
         \<and> (Inr (Some c), g') = reveal_next_card g
         \<and> py_index (hand (heap w cl)) ix = Inr shown
         \<and> (rank shown = rank c \<longrightarrow>
              drinks_taken (heap w' tg) = drinks_taken (heap w tg) + 2
              \<and> drinks_taken (heap w' cl) = drinks_taken (heap w cl))
         \<and> (rank shown \<noteq> rank c \<longrightarrow>
              drinks_taken (heap w' cl) = drinks_taken (heap w cl) + 2
              \<and> drinks_taken (heap w' tg) = drinks_taken (heap w tg))
         \<and> revealed_indices (heap w' cl) = insert ix (revealed_indices (heap w cl))"
proof -
  from reveal_next_card_step [OF assms(1,2)] obtain c p' where
    st: "reveal_next_card g = (Inr (Some c), g\<lparr>pyramid := p'\<rparr>)" by blast
  from py_index_in_range [OF assms(4,5)] obtain shown where
    sh: "py_index (hand (heap w cl)) ix = Inr shown" by blast
  show ?thesis
    using assms(3)
    by (simp add: play_turn_def st sh reveal_at_def reveal_def drink_at_def drink_def Let_def)
qed

theorem play_turn_challenge_witness:
  "pyramid_ok (pyramid ex_game) \<and> \<not> exhausted (pyramid ex_game) \<and> (0::nat) \<noteq> 1
   \<and> - int (length (hand (heap ex_world 0))) \<le> 1 \<and> (1::int) < int (length (hand (heap ex_world 0)))
   \<and> fst (play_turn ex_world ex_game (Some 0) (Some 1) (Some 1) False)
       = Inr (c_7h, Some ''Anna drinkt 2'')
   \<and> revealed_indices
       (heap (fst (snd (play_turn ex_world ex_game (Some 0) (Some 1) (Some 1) False))) 0) = {1}"
proof -
  have a: "pyramid_ok (pyramid ex_game)" "\<not> exhausted (pyramid ex_game)" "(0::nat) \<noteq> 1"
          "- int (length (hand (heap ex_world 0))) \<le> 1"
          "(1::int) < int (length (hand (heap ex_world 0)))"
    by (simp_all add: ex_defs turn_defs)
  have b: "fst (play_turn ex_world ex_game (Some 0) (Some 1) (Some 1) False)
             = Inr (c_7h, Some ''Anna drinkt 2'')"
          "revealed_indices (heap ex_world 0) = {}"
    by (simp_all add: ex_defs turn_defs)
  from play_turn_challenge [OF a] obtain c shown outcome w' g' where
    t: "play_turn ex_world ex_game (Some 0) (Some 1) (Some 1) False = (Inr (c, Some outcome), w', g')"
       "revealed_indices (heap w' 0) = insert 1 (revealed_indices (heap ex_world 0))" by blast
  with a b show ?thesis by simp
qed

text \<open>
  The claim without the two conditions fails. When the claimer is also the target and the
  ranks match, the claimer's own drinks grow by 2; with index 4 on a four-card hand the
  call raises \<open>IndexError\<close> and nobody drinks.
\<close>

theorem play_turn_challenge_counterexample:
  "pyramid_ok (pyramid ex_game) \<and> \<not> exhausted (pyramid ex_game)
   \<and> fst (play_turn ex_world ex_game (Some 0) (Some 0) (Some 0) False)
       = Inr (c_7h, Some ''Anna drinkt 2'')
   \<and> py_index (hand (heap ex_world 0)) 0 = Inr c_7s \<and> rank c_7s = rank c_7h
   \<and> drinks_taken (heap ex_world 0) = 0
   \<and> drinks_taken
       (heap (fst (snd (play_turn ex_world ex_game (Some 0) (Some 0) (Some 0) False))) 0) = 2
   \<and> fst (play_turn ex_world ex_game (Some 0) (Some 1) (Some 4) False) = Inl IndexError
   \<and> drinks_taken
       (heap (fst (snd (play_turn ex_world ex_game (Some 0) (Some 1) (Some 4) False))) 0) = 0
   \<and> drinks_taken (heap ex_world 1) = 3
   \<and> drinks_taken
       (heap (fst (snd (play_turn ex_world ex_game (Some 0) (Some 1) (Some 4) False))) 1) = 3"
  by (simp add: ex_defs turn_defs)

subsection \<open>Setting up a game\<close>

lemma length_all_cards: "length all_cards = 52"
  by (simp add: all_cards_def ranks_def suits_def)

lemma Deck_init_eq: "Deck_init = Inr \<lparr>cards = all_cards\<rparr>"
  by (simp add: Deck_init_def length_all_cards)

lemma new_players_heap:
  "fst (new_players w nms) = [next_ref w ..< next_ref w + length nms]
   \<and> next_ref (snd (new_players w nms)) = next_ref w + length nms
   \<and> heap (snd (new_players w nms))
       = (\<lambda>r. if next_ref w \<le> r \<and> r < next_ref w + length nms
               then Player_init (nms ! (r - next_ref w)) else heap w r)"
proof (induction nms arbitrary: w)
  case Nil
  then show ?case by (auto simp add: fun_eq_iff)
next
  case (Cons nm nms)
  define w1 where "w1 = snd (new_player w nm)"
  have w1: "new_player w nm = (next_ref w, w1)" "next_ref w1 = Suc (next_ref w)"
           "heap w1 = (heap w)(next_ref w := Player_init nm)"
    by (simp_all add: w1_def new_player_def)
  note ih = Cons.IH [of w1]
  have up: "[next_ref w ..< next_ref w + length (nm # nms)]
              = next_ref w # [Suc (next_ref w) ..< Suc (next_ref w) + length nms]"
    by (subst upt_conv_Cons) simp_all
  have f: "fst (new_players w (nm # nms)) = [next_ref w ..< next_ref w + length (nm # nms)]"
    using ih unfolding up by (simp add: w1 split_beta)
  have n: "next_ref (snd (new_players w (nm # nms))) = next_ref w + length (nm # nms)"
    using ih by (simp add: w1 split_beta)
  have h: "heap (snd (new_players w (nm # nms)))
       = (\<lambda>r. if next_ref w \<le> r \<and> r < next_ref w + length (nm # nms)
               then Player_init ((nm # nms) ! (r - next_ref w)) else heap w r)"
  proof
    fix r
    have "heap (snd (new_players w (nm # nms))) r = heap (snd (new_players w1 nms)) r"
      by (simp add: w1 split_beta)
    also have "\<dots> = (if next_ref w \<le> r \<and> r < next_ref w + length (nm # nms)
               then Player_init ((nm # nms) ! (r - next_ref w)) else heap w r)"
      using ih by (auto simp add: w1 nth_Cons' Suc_diff_le)
    finally show "heap (snd (new_players w (nm # nms))) r
       = (if next_ref w \<le> r \<and> r < next_ref w + length (nm # nms)
               then Player_init ((nm # nms) ! (r - next_ref w)) else heap w r)" .
  qed
  from f n h show ?case by blast
qed

lemma deal_hands_ok:
  assumes "distinct rs" "4 * length rs \<le> length (cards d)"
  shows "\<exists>w'. deal_hands w d rs = (Inr (), w', d\<lparr>cards := drop (4 * length rs) (cards d)\<rparr>)
            \<and> next_ref w' = next_ref w
            \<and> (\<forall>r. r \<notin> set rs \<longrightarrow> heap w' r = heap w r)
            \<and> (\<forall>i<length rs. heap w' (rs ! i)
                  = receive (heap w (rs ! i)) (take 4 (drop (4 * i) (cards d))))"
  using assms
proof (induction rs arbitrary: w d)
  case Nil
  then show ?case by simp
next
  case (Cons r rs)
  let ?d1 = "d\<lparr>cards := drop 4 (cards d)\<rparr>"
  let ?w1 = "receive_at w r (take 4 (cards d))"
  have dl: "deal d 4 = (Inr (take 4 (cards d)), ?d1)"
    using Cons.prems(2) deal_some [of 4 d] by simp
  have "distinct rs" "4 * length rs \<le> length (cards ?d1)"
    using Cons.prems by simp_all
  from Cons.IH [OF this, of ?w1] obtain w' where
    ih: "deal_hands ?w1 ?d1 rs = (Inr (), w', ?d1\<lparr>cards := drop (4 * length rs) (cards ?d1)\<rparr>)"
        "next_ref w' = next_ref ?w1"
        "\<forall>q. q \<notin> set rs \<longrightarrow> heap w' q = heap ?w1 q"
        "\<forall>i<length rs. heap w' (rs ! i)
            = receive (heap ?w1 (rs ! i)) (take 4 (drop (4 * i) (cards ?d1)))"
    by blast
  have r: "r \<notin> set rs" using Cons.prems(1) by simp
  have c1: "deal_hands w d (r # rs)
              = (Inr (), w', d\<lparr>cards := drop (4 * length (r # rs)) (cards d)\<rparr>)"
    by (simp add: dl ih(1) add.commute)
  have c2: "next_ref w' = next_ref w" using ih(2) by (simp add: receive_at_def)
  have c3: "\<forall>q. q \<notin> set (r # rs) \<longrightarrow> heap w' q = heap w q"
    using ih(3) by (simp add: receive_at_def)
  have c4: "heap w' ((r # rs) ! i)
              = receive (heap w ((r # rs) ! i)) (take 4 (drop (4 * i) (cards d)))"
    if "i < length (r # rs)" for i
  proof (cases i)
    case 0
    then show ?thesis using ih(3) r by (simp add: receive_at_def)
  next
    case (Suc j)
    then have j: "j < length rs" using that by simp
    then have "rs ! j \<noteq> r" using r by (metis nth_mem)
    then show ?thesis using ih(4) j Suc by (simp add: receive_at_def add.commute)
  qed
  from c1 c2 c3 c4 show ?case by blast
qed

lemma deal_all:
  "deal d (int (length (cards d))) = (Inr (cards d), d\<lparr>cards := []\<rparr>)"
  using deal_some [of "int (length (cards d))" d] by simp

lemma Game_init_ok:
  assumes N: "2 \<le> length names" "length names \<le> 12" and sh: "length (sh all_cards) = 52"
  shows "\<exists>g w' R. Game_init sh w names = (Inr g, w')
    \<and> players g = [next_ref w ..< next_ref w + length names]
    \<and> next_ref w' = next_ref w + length names
    \<and> (\<forall>r<next_ref w. heap w' r = heap w r)
    \<and> (\<forall>i<length names. heap w' (next_ref w + i)
          = \<lparr>name = names ! i, hand = take 4 (drop (4 * i) (sh all_cards)),
             revealed_indices = {}, drinks_taken = 0\<rparr>)
    \<and> max_pyramid_rows (52 - 4 * int (length names)) = Inr R \<and> 0 \<le> R
    \<and> R * (R + 1) div 2 \<le> 52 - 4 * int (length names)
    \<and> pyramid g = Pyramid_init (take (nat (R * (R + 1) div 2))
                                    (drop (4 * length names) (sh all_cards))) R
    \<and> rest_stapel g = drop (4 * length names + nat (R * (R + 1) div 2)) (sh all_cards)
    \<and> deck g = \<lparr>cards = []\<rparr>"
proof -
  define n where "n = length names"
  define a where "a = next_ref w"
  define ps where "ps = [a ..< a + n]"
  define w1 where "w1 = snd (new_players w names)"
  define d1 where "d1 = \<lparr>cards = sh all_cards\<rparr>"
  have np: "new_players w names = (ps, w1)" "next_ref w1 = a + n"
    and h1: "heap w1 = (\<lambda>r. if a \<le> r \<and> r < a + n then Player_init (names ! (r - a)) else heap w r)"
    using new_players_heap [of w names]
    unfolding ps_def w1_def a_def n_def by (simp_all add: prod_eq_iff)
  have shf: "shuffle sh \<lparr>cards = all_cards\<rparr> = d1"
    by (simp add: shuffle_def d1_def)
  have "distinct ps" "4 * length ps \<le> length (cards d1)"
    using N sh by (simp_all add: ps_def d1_def n_def)
  from deal_hands_ok [OF this, of w1] obtain w2 where
    dh: "deal_hands w1 d1 ps = (Inr (), w2, d1\<lparr>cards := drop (4 * length ps) (cards d1)\<rparr>)"
    and n2: "next_ref w2 = next_ref w1"
    and out: "\<forall>r. r \<notin> set ps \<longrightarrow> heap w2 r = heap w1 r"
    and inn: "\<forall>i<length ps. heap w2 (ps ! i)
                = receive (heap w1 (ps ! i)) (take 4 (drop (4 * i) (cards d1)))"
    by blast
  define d2 where "d2 = \<lparr>cards = drop (4 * n) (sh all_cards)\<rparr>"
  have d2: "d1\<lparr>cards := drop (4 * length ps) (cards d1)\<rparr> = d2"
    by (simp add: d1_def d2_def ps_def)
  have l2: "int (length (cards d2)) = 52 - 4 * int n"
    using N sh by (simp add: d2_def n_def)
  have "0 \<le> 52 - 4 * int n" using N by (simp add: n_def)
  from max_pyramid_rows_spec [OF this] obtain R where
    R: "max_pyramid_rows (52 - 4 * int n) = Inr R" "0 \<le> R"
       "R * (R + 1) div 2 \<le> 52 - 4 * int n" by blast
  define t where "t = R * (R + 1) div 2"
  have t0: "0 \<le> t" using R(2) by (simp add: t_def)
  have tl: "t \<le> int (length (cards d2))" using R(3) by (simp add: t_def l2)
  define d3 where "d3 = d2\<lparr>cards := drop (nat t) (cards d2)\<rparr>"
  have dl3: "deal d2 t = (Inr (take (nat t) (cards d2)), d3)"
    using deal_some [OF t0 tl] by (simp add: d3_def)
  have dl4: "deal d3 (int (length (cards d3))) = (Inr (cards d3), d3\<lparr>cards := []\<rparr>)"
    by (rule deal_all)
  let ?g = "\<lparr>players = ps, deck = d3\<lparr>cards := []\<rparr>,
            pyramid = Pyramid_init (take (nat t) (cards d2)) R, rest_stapel = cards d3\<rparr>"
  have gi: "Game_init sh w names = (Inr ?g, w2)"
    using N
    by (simp add: Game_init_def np Deck_init_eq shf dh d2 l2 R(1) dl3 dl4
        t_def [symmetric] n_def [symmetric])
  have c_old: "\<forall>r<next_ref w. heap w2 r = heap w r"
    using out by (simp add: h1 ps_def a_def)
  have c_new: "heap w2 (next_ref w + i)
      = \<lparr>name = names ! i, hand = take 4 (drop (4 * i) (sh all_cards)),
         revealed_indices = {}, drinks_taken = 0\<rparr>" if "i < length names" for i
  proof -
    have "i < length ps" "ps ! i = a + i" using that by (simp_all add: ps_def n_def)
    with inn have "heap w2 (a + i) = receive (heap w1 (a + i)) (take 4 (drop (4 * i) (cards d1)))"
      by metis
    then show ?thesis using that
      by (simp add: h1 a_def n_def receive_def Player_init_def d1_def)
  qed
  have "rest_stapel ?g = drop (4 * n + nat t) (sh all_cards)"
    by (simp add: d3_def d2_def add.commute)
  moreover have "pyramid ?g = Pyramid_init (take (nat t) (drop (4 * n) (sh all_cards))) R"
    by (simp add: d2_def)
  moreover have "deck ?g = \<lparr>cards = []\<rparr>" by (simp add: d3_def d2_def)
  moreover have "players ?g = [next_ref w ..< next_ref w + length names]"
    by (simp add: ps_def a_def n_def)
  moreover have "next_ref w2 = next_ref w + length names"
    using n2 np(2) by (simp add: a_def n_def)
  ultimately show ?thesis
    using gi c_old c_new R unfolding t_def n_def by blast
qed

lemma Pyramid_init_rows:
  assumes "0 \<le> R" "int (length cs) = R * (R + 1) div 2"
  shows "int (length (rows (Pyramid_init cs R))) = R"
proof -
  from Pyramid_init_exact [OF assms]
  have "map length (rows (Pyramid_init cs R)) = rev [1..<Suc (nat R)]" by blast
  then have "length (map length (rows (Pyramid_init cs R))) = length (rev [1..<Suc (nat R)])"
    by (rule arg_cong)
  then show ?thesis using assms(1) by (simp del: upt_Suc)
qed

text \<open>
  C2. For a list of \<open>N\<close> names with \<open>2 \<le> N \<le> 12\<close>, and whatever permutation the
  shuffle draws, the constructor succeeds: the game has \<open>N\<close> players, one per name, each
  with exactly 4 cards; the pyramid has \<open>R\<close> rows, where \<open>R\<close> is the largest integer with
  \<open>R(R+1)/2 \<le> 52 - 4N\<close>; and the rest stack has \<open>52 - 4N - R(R+1)/2\<close> cards. For
  \<open>N < 2\<close> or \<open>N > 12\<close> the constructor raises \<open>ValueError\<close> with its message and
  changes nothing.
\<close>

theorem Game_init_layout:
  "(2 \<le> length names \<and> length names \<le> 12 \<and> mset (sh all_cards) = mset all_cards \<longrightarrow>
      (\<exists>g w' R. Game_init sh w names = (Inr g, w')
         \<and> length (players g) = length names \<and> distinct (players g)
         \<and> map (\<lambda>r. name (heap w' r)) (players g) = names
         \<and> (\<forall>r \<in> set (players g). length (hand (heap w' r)) = 4)
         \<and> int (length (rows (pyramid g))) = R
         \<and> R * (R + 1) div 2 \<le> 52 - 4 * int (length names)
         \<and> (\<forall>k. k * (k + 1) div 2 \<le> 52 - 4 * int (length names) \<longrightarrow> k \<le> R)
         \<and> int (length (rest_stapel g)) = 52 - 4 * int (length names) - R * (R + 1) div 2))
   \<and> (length names < 2 \<or> 12 < length names \<longrightarrow>
        Game_init sh w names
          = (Inl (ValueError ''minstens 2, max 12 spelers voor 4 kaarten pp''), w))"
proof (intro conjI impI)
  assume "length names < 2 \<or> 12 < length names"
  then show "Game_init sh w names
          = (Inl (ValueError ''minstens 2, max 12 spelers voor 4 kaarten pp''), w)"
    by (auto simp add: Game_init_def)
next
  assume a: "2 \<le> length names \<and> length names \<le> 12 \<and> mset (sh all_cards) = mset all_cards"
  then have N: "2 \<le> length names" "length names \<le> 12" by simp_all
  have sh: "length (sh all_cards) = 52"
    using a mset_eq_length [of "sh all_cards" all_cards] by (simp add: length_all_cards)
  let ?n = "length names"
  let ?a = "next_ref w"
  from Game_init_ok [where names = names and sh = sh and w = w, OF N sh] obtain g w' R where
    g: "Game_init sh w names = (Inr g, w')"
       "players g = [?a ..< ?a + ?n]"
       "\<forall>i<?n. heap w' (?a + i)
          = \<lparr>name = names ! i, hand = take 4 (drop (4 * i) (sh all_cards)),
             revealed_indices = {}, drinks_taken = 0\<rparr>"
       "max_pyramid_rows (52 - 4 * int ?n) = Inr R" "0 \<le> R"
       "R * (R + 1) div 2 \<le> 52 - 4 * int ?n"
       "pyramid g = Pyramid_init (take (nat (R * (R + 1) div 2))
                                    (drop (4 * ?n) (sh all_cards))) R"
       "rest_stapel g = drop (4 * ?n + nat (R * (R + 1) div 2)) (sh all_cards)"
    by blast
  define t where "t = R * (R + 1) div 2"
  have t: "0 \<le> t" "t \<le> 52 - 4 * int ?n"
    using g(5,6) by (simp_all add: t_def)
  have mx: "\<forall>k. k * (k + 1) div 2 \<le> 52 - 4 * int ?n \<longrightarrow> k \<le> R"
  proof -
    have "0 \<le> 52 - 4 * int ?n" using N by simp
    from max_pyramid_rows_spec [OF this] g(4) show ?thesis by auto
  qed
  have names: "map (\<lambda>r. name (heap w' r)) (players g) = names"
    using g(3) by (intro nth_equalityI) (simp_all add: g(2))
  have hands: "\<forall>r \<in> set (players g). length (hand (heap w' r)) = 4"
  proof
    fix r assume "r \<in> set (players g)"
    then obtain i where i: "r = ?a + i" "i < ?n"
      by (auto simp add: g(2) intro: that [of "r - ?a"])
    with g(3) have "hand (heap w' r) = take 4 (drop (4 * i) (sh all_cards))" by simp
    then show "length (hand (heap w' r)) = 4" using i(2) N sh by simp
  qed
  have "int (length (take (nat t) (drop (4 * ?n) (sh all_cards)))) = t"
    using t N sh by simp
  then have rws: "int (length (rows (pyramid g))) = R"
    unfolding g(7) t_def [symmetric] using g(5)
    by (intro Pyramid_init_rows) (simp_all add: t_def)
  have rest: "int (length (rest_stapel g)) = 52 - 4 * int ?n - t"
    using t N sh by (simp add: g(8) t_def [symmetric])
  show "\<exists>g w' R. Game_init sh w names = (Inr g, w')
         \<and> length (players g) = length names \<and> distinct (players g)
         \<and> map (\<lambda>r. name (heap w' r)) (players g) = names
         \<and> (\<forall>r \<in> set (players g). length (hand (heap w' r)) = 4)
         \<and> int (length (rows (pyramid g))) = R
         \<and> R * (R + 1) div 2 \<le> 52 - 4 * int (length names)
         \<and> (\<forall>k. k * (k + 1) div 2 \<le> 52 - 4 * int (length names) \<longrightarrow> k \<le> R)
         \<and> int (length (rest_stapel g)) = 52 - 4 * int (length names) - R * (R + 1) div 2"
    using g(1,2,6) names hands rws mx rest unfolding t_def
    by (intro exI [of _ g] exI [of _ w'] exI [of _ R]) simp
qed

theorem Game_init_layout_witness:
  "2 \<le> length [''A'', ''B'', ''C''] \<and> length [''A'', ''B'', ''C''] \<le> 12
   \<and> mset (rev all_cards) = mset all_cards
   \<and> (\<exists>g w'. Game_init rev ex_world [''A'', ''B'', ''C''] = (Inr g, w')
         \<and> length (players g) = 3 \<and> int (length (rows (pyramid g))) = 8
         \<and> int (length (rest_stapel g)) = 4)
   \<and> length [''A''] < 2
   \<and> Game_init rev ex_world [''A'']
       = (Inl (ValueError ''minstens 2, max 12 spelers voor 4 kaarten pp''), ex_world)"
proof -
  have a: "2 \<le> length [''A'', ''B'', ''C''] \<and> length [''A'', ''B'', ''C''] \<le> 12
           \<and> mset (rev all_cards) = mset all_cards" by simp
  from Game_init_layout [of "[''A'', ''B'', ''C'']" rev ex_world] a
  obtain g w' R where
    g: "Game_init rev ex_world [''A'', ''B'', ''C''] = (Inr g, w')"
       "length (players g) = length [''A'', ''B'', ''C'']"
       "int (length (rows (pyramid g))) = R"
       "R * (R + 1) div 2 \<le> 52 - 4 * int (length [''A'', ''B'', ''C''])"
       "\<forall>k. k * (k + 1) div 2 \<le> 52 - 4 * int (length [''A'', ''B'', ''C'']) \<longrightarrow> k \<le> R"
       "int (length (rest_stapel g))
          = 52 - 4 * int (length [''A'', ''B'', ''C'']) - R * (R + 1) div 2"
    by blast
  have lo: "8 \<le> R" using g(5) [rule_format, of 8] by simp
  have hi: "R \<le> 8"
  proof (rule ccontr)
    assume "\<not> R \<le> 8"
    then have "9 \<le> R" by simp
    then have "9 * 10 \<le> R * (R + 1)" by (intro mult_mono) simp_all
    then have "9 * 10 div 2 \<le> R * (R + 1) div 2" by (rule zdiv_mono1) simp
    with g(4) show False by simp
  qed
  from lo hi have R: "R = 8" by simp
  have b: "length [''A''] < 2" by simp
  from Game_init_layout [of "[''A'']" rev ex_world] b
  have f: "Game_init rev ex_world [''A'']
       = (Inl (ValueError ''minstens 2, max 12 spelers voor 4 kaarten pp''), ex_world)"
    by blast
  show ?thesis using a g(1,2,3,6) f unfolding R by simp
qed

subsection \<open>Saving and loading\<close>

lemma card_round_trip: "card_from_tuple (card_to_tuple c) = Inr c"
  by (simp add: card_from_tuple_def card_to_tuple_def as_list_def as_str_def bind_err_def)

lemma map_err_ok:
  assumes "\<And>x. x \<in> set xs \<Longrightarrow> f (g x) = Inr (h x)"
  shows "map_err f (map g xs) = Inr (map h xs)"
  using assms by (induction xs) (simp_all add: bind_err_def)

lemma decode_cards_round_trip: "decode_cards (JList (map card_to_tuple cs)) = Inr cs"
  using map_err_ok [of cs card_from_tuple card_to_tuple "\<lambda>c. c"]
  by (simp add: decode_cards_def as_list_def bind_err_def card_round_trip)

lemma decode_ints_round_trip: "map_err as_int (map JInt xs) = Inr xs"
  using map_err_ok [of xs as_int JInt "\<lambda>n. n"] by (simp add: as_int_def)

lemma decode_rows_round_trip:
  "map_err decode_cards (map (\<lambda>rw. JList (map card_to_tuple rw)) rws) = Inr rws"
  using map_err_ok [of rws decode_cards "\<lambda>rw. JList (map card_to_tuple rw)" "\<lambda>rw. rw"]
  by (simp add: decode_cards_round_trip)

lemma player_json_fields:
  "dict_get (player_to_json enum p) ''name'' = Inr (JStr (name p))"
  "dict_get (player_to_json enum p) ''hand'' = Inr (JList (map card_to_tuple (hand p)))"
  "dict_get (player_to_json enum p) ''revealed''
     = Inr (JList (map JInt (enum (revealed_indices p))))"
  "dict_get (player_to_json enum p) ''drinks_taken'' = Inr (JInt (drinks_taken p))"
  by (simp_all add: dict_get_def player_to_json_def)

lemma decode_names_round_trip:
  "map_err (\<lambda>p. bind_err (dict_get p ''name'') as_str) (map (player_to_json enum) pl)
     = Inr (map name pl)"
  by (rule map_err_ok) (simp add: player_json_fields bind_err_def as_str_def)

lemma restore_players_ok:
  assumes "distinct rs" "length rs = length pl"
  shows "\<exists>w'. restore_players w (map (player_to_json enum) pl) rs = (Inr (), w')
            \<and> next_ref w' = next_ref w
            \<and> (\<forall>r. r \<notin> set rs \<longrightarrow> heap w' r = heap w r)
            \<and> (\<forall>i<length rs. heap w' (rs ! i)
                  = (heap w (rs ! i))\<lparr>hand := hand (pl ! i),
                       revealed_indices := set (enum (revealed_indices (pl ! i))),
                       drinks_taken := drinks_taken (pl ! i)\<rparr>)"
  using assms
proof (induction rs arbitrary: w pl)
  case Nil
  then show ?case by simp
next
  case (Cons r rs)
  then obtain p pl' where pl: "pl = p # pl'" by (cases pl) simp_all
  define w1 where "w1 = w\<lparr>heap := (heap w)(r := (heap w r)\<lparr>hand := hand p,
                       revealed_indices := set (enum (revealed_indices p)),
                       drinks_taken := drinks_taken p\<rparr>)\<rparr>"
  have step: "restore_players w (map (player_to_json enum) (p # pl')) (r # rs)
                = restore_players w1 (map (player_to_json enum) pl') rs"
    by (simp add: player_json_fields bind_err_def decode_cards_round_trip as_list_def
        decode_ints_round_trip as_int_def Let_def w1_def)
  have "distinct rs" "length rs = length pl'" using Cons.prems pl by simp_all
  from Cons.IH [OF this, of w1 ] obtain w' where
    ih: "restore_players w1 (map (player_to_json enum) pl') rs = (Inr (), w')"
        "next_ref w' = next_ref w1"
        "\<forall>q. q \<notin> set rs \<longrightarrow> heap w' q = heap w1 q"
        "\<forall>i<length rs. heap w' (rs ! i)
            = (heap w1 (rs ! i))\<lparr>hand := hand (pl' ! i),
                 revealed_indices := set (enum (revealed_indices (pl' ! i))),
                 drinks_taken := drinks_taken (pl' ! i)\<rparr>"
    by blast
  have r: "r \<notin> set rs" using Cons.prems(1) by simp
  have c1: "restore_players w (map (player_to_json enum) pl) (r # rs) = (Inr (), w')"
    using step ih(1) by (simp only: pl)
  have c2: "next_ref w' = next_ref w" using ih(2) by (simp add: w1_def)
  have c3: "\<forall>q. q \<notin> set (r # rs) \<longrightarrow> heap w' q = heap w q"
    using ih(3) by (simp add: w1_def)
  have c4: "heap w' ((r # rs) ! i)
              = (heap w ((r # rs) ! i))\<lparr>hand := hand (pl ! i),
                   revealed_indices := set (enum (revealed_indices (pl ! i))),
                   drinks_taken := drinks_taken (pl ! i)\<rparr>"
    if "i < length (r # rs)" for i
  proof (cases i)
    case 0
    then show ?thesis using ih(3) r by (simp add: w1_def pl)
  next
    case (Suc j)
    then have j: "j < length rs" using that by simp
    then have "rs ! j \<noteq> r" using r by (metis nth_mem)
    then show ?thesis using ih(4) j Suc by (simp add: w1_def pl)
  qed
  from c1 c2 c3 c4 show ?case by blast
qed

lemma restore_board_round_trip:
  "restore_board (game_to_json enum w g0) g
     = Inr (g\<lparr>pyramid := pyramid g0, rest_stapel := rest_stapel g0\<rparr>)"
  by (simp add: restore_board_def game_to_json_def dict_get_def bind_err_def as_list_def
      as_int_def decode_rows_round_trip decode_cards_round_trip Let_def)

text \<open>
  C6. Saving a game and loading the file again gives a game whose players have, one by
  one, the same name, hand, revealed set and drink count as the saved ones, the same rest
  stack and the same pyramid with the same cursor, so that the next \<open>reveal_next_card\<close>
  returns the same card (hence a card of the same rank) as it would on the saved game.
  The game has between 2 and 12 players, as every game the constructor built has; the
  shuffle inside \<open>load_game\<close> permutes the fresh deck; and the order in which the revealed
  set is listed is any order that lists exactly its elements.
\<close>

theorem save_load_round_trip:
  assumes "2 \<le> length (players g)" "length (players g) \<le> 12"
    and "mset (sh all_cards) = mset all_cards"
    and "\<forall>r \<in> set (players g). set (enum (revealed_indices (heap w r))) = revealed_indices (heap w r)"
  shows "\<exists>g' w'. load_game sh w (save_game enum w fs g filename) filename = (Inr g', w')
           \<and> map (heap w') (players g') = map (heap w) (players g)
           \<and> rest_stapel g' = rest_stapel g
           \<and> pyramid g' = pyramid g
           \<and> fst (reveal_next_card g') = fst (reveal_next_card g)"
proof -
  define pl where "pl = map (heap w) (players g)"
  define doc where "doc = game_to_json enum w g"
  define names where "names = map name pl"
  have saved: "save_game enum w fs g filename filename = Some doc"
    by (simp add: save_game_def doc_def)
  have pds: "bind_err (dict_get doc ''players'') as_list = Inr (map (player_to_json enum) pl)"
    by (simp add: doc_def game_to_json_def dict_get_def bind_err_def as_list_def pl_def)
  have nms: "map_err (\<lambda>p. bind_err (dict_get p ''name'') as_str) (map (player_to_json enum) pl)
               = Inr names"
    by (simp add: names_def decode_names_round_trip)
  have N: "2 \<le> length names" "length names \<le> 12"
    using assms(1,2) by (simp_all add: names_def pl_def)
  have sh: "length (sh all_cards) = 52"
    using assms(3) mset_eq_length [of "sh all_cards" all_cards] by (simp add: length_all_cards)
  let ?a = "next_ref w"
  from Game_init_ok [where names = names and sh = sh and w = w, OF N sh] obtain g1 w1 where
    g1: "Game_init sh w names = (Inr g1, w1)"
        "players g1 = [?a ..< ?a + length names]"
        "\<forall>i<length names. heap w1 (?a + i)
          = \<lparr>name = names ! i, hand = take 4 (drop (4 * i) (sh all_cards)),
             revealed_indices = {}, drinks_taken = 0\<rparr>"
    by blast
  have "distinct (players g1)" "length (players g1) = length pl"
    by (simp_all add: g1(2) names_def)
  from restore_players_ok [OF this, of w1 enum] obtain w2 where
    w2: "restore_players w1 (map (player_to_json enum) pl) (players g1) = (Inr (), w2)"
        "\<forall>i<length (players g1). heap w2 (players g1 ! i)
            = (heap w1 (players g1 ! i))\<lparr>hand := hand (pl ! i),
                 revealed_indices := set (enum (revealed_indices (pl ! i))),
                 drinks_taken := drinks_taken (pl ! i)\<rparr>"
    by blast
  define g' where "g' = g1\<lparr>pyramid := pyramid g, rest_stapel := rest_stapel g\<rparr>"
  have board: "restore_board doc g1 = Inr g'"
    by (simp add: doc_def g'_def restore_board_round_trip)
  have load: "load_game sh w (save_game enum w fs g filename) filename = (Inr g', w2)"
    by (simp add: load_game_def saved pds nms g1(1) w2(1) board)
  have same: "heap w2 (players g' ! i) = pl ! i" if i: "i < length pl" for i
  proof -
    have n: "i < length names" "players g1 ! i = ?a + i" "i < length (players g1)"
      using i by (simp_all add: names_def g1(2))
    have "pl ! i = heap w (players g ! i)" "players g ! i \<in> set (players g)"
      using i by (simp_all add: pl_def)
    with assms(4) have en: "set (enum (revealed_indices (pl ! i))) = revealed_indices (pl ! i)"
      by simp
    have "heap w2 (players g1 ! i)
            = (heap w1 (?a + i))\<lparr>hand := hand (pl ! i),
                 revealed_indices := set (enum (revealed_indices (pl ! i))),
                 drinks_taken := drinks_taken (pl ! i)\<rparr>"
      using w2(2) [rule_format, OF n(3)] by (simp only: n(2))
    also have "heap w1 (?a + i) = \<lparr>name = names ! i, hand = take 4 (drop (4 * i) (sh all_cards)),
             revealed_indices = {}, drinks_taken = 0\<rparr>"
      using g1(3) n(1) by simp
    finally show ?thesis using i by (simp add: en names_def g'_def)
  qed
  have players: "map (heap w2) (players g') = map (heap w) (players g)"
  proof -
    have "map (heap w2) (players g') = pl"
      using same by (intro nth_equalityI) (simp_all add: g'_def g1(2) names_def)
    then show ?thesis by (simp add: pl_def)
  qed
  have "rest_stapel g' = rest_stapel g" "pyramid g' = pyramid g"
    by (simp_all add: g'_def)
  moreover from this have "fst (reveal_next_card g') = fst (reveal_next_card g)"
    by (simp add: reveal_next_card_def split_beta)
  ultimately show ?thesis using load players by blast
qed

theorem save_load_round_trip_witness:
  "2 \<le> length (players ex_game) \<and> length (players ex_game) \<le> 12
   \<and> mset (rev all_cards) = mset all_cards
   \<and> set (sorted_list_of_set (revealed_indices (heap ex_world 0)))
       = revealed_indices (heap ex_world 0)
   \<and> set (sorted_list_of_set (revealed_indices (heap ex_world 1)))
       = revealed_indices (heap ex_world 1)
   \<and> (\<exists>g' w'. load_game rev ex_world
                  (save_game sorted_list_of_set ex_world (\<lambda>f. None) ex_game ''game.json'')
                  ''game.json'' = (Inr g', w')
         \<and> map (heap w') (players g') = [anna, bram]
         \<and> rest_stapel g' = [c_Qh]
         \<and> fst (reveal_next_card g') = Inr (Some c_7h))"
proof -
  have a: "2 \<le> length (players ex_game)" "length (players ex_game) \<le> 12"
          "mset (rev all_cards) = mset all_cards"
    by (simp_all add: ex_game_def)
  have b: "set (sorted_list_of_set (revealed_indices (heap ex_world 0)))
             = revealed_indices (heap ex_world 0)"
          "set (sorted_list_of_set (revealed_indices (heap ex_world 1)))
             = revealed_indices (heap ex_world 1)"
    by (simp_all add: ex_world_def anna_def bram_def)
  have c: "\<forall>r \<in> set (players ex_game).
             set (sorted_list_of_set (revealed_indices (heap ex_world r)))
               = revealed_indices (heap ex_world r)"
    using b by (simp add: ex_game_def)
  have d: "map (heap ex_world) (players ex_game) = [anna, bram]"
          "rest_stapel ex_game = [c_Qh]" "fst (reveal_next_card ex_game) = Inr (Some c_7h)"
    by (simp_all add: ex_defs turn_defs)
  from save_load_round_trip [where g = ex_game and sh = rev and enum = sorted_list_of_set
         and w = ex_world and fs = "\<lambda>f. None" and filename = "''game.json''", OF a c]
  obtain g' w' where
    t: "load_game rev ex_world
          (save_game sorted_list_of_set ex_world (\<lambda>f. None) ex_game ''game.json'')
          ''game.json'' = (Inr g', w')"
       "map (heap w') (players g') = map (heap ex_world) (players ex_game)"
       "rest_stapel g' = rest_stapel ex_game"
       "fst (reveal_next_card g') = fst (reveal_next_card ex_game)"
    by blast
  have "\<exists>g' w'. load_game rev ex_world
                  (save_game sorted_list_of_set ex_world (\<lambda>f. None) ex_game ''game.json'')
                  ''game.json'' = (Inr g', w')
         \<and> map (heap w') (players g') = [anna, bram]
         \<and> rest_stapel g' = [c_Qh]
         \<and> fst (reveal_next_card g') = Inr (Some c_7h)"
    using t unfolding d by (intro exI [of _ g'] exI [of _ w']) simp
  with a b show ?thesis by blast
qed

subsection \<open>What every game satisfies\<close>

text \<open>
  The hypotheses of the theorems on turns and on persistence hold of every game that the
  constructor built and that \<open>play_turn\<close> moved on: the player list has between 2 and 12
  entries and is never changed, and the cursor of the pyramid stays well-formed.
\<close>

lemma Game_init_invariant:
  assumes "Game_init sh w names = (Inr g, w')" "mset (sh all_cards) = mset all_cards"
  shows "2 \<le> length (players g) \<and> length (players g) \<le> 12 \<and> pyramid_ok (pyramid g)"
proof -
  have N: "2 \<le> length names" "length names \<le> 12"
    using assms(1) by (auto simp add: Game_init_def split: if_splits)
  have sh: "length (sh all_cards) = 52"
    using assms(2) mset_eq_length [of "sh all_cards" all_cards] by (simp add: length_all_cards)
  from Game_init_ok [where names = names and sh = sh and w = w, OF N sh] assms(1)
  obtain R where
    g: "players g = [next_ref w ..< next_ref w + length names]" "0 \<le> R"
       "R * (R + 1) div 2 \<le> 52 - 4 * int (length names)"
       "pyramid g = Pyramid_init (take (nat (R * (R + 1) div 2))
                                    (drop (4 * length names) (sh all_cards))) R"
    by auto
  define t where "t = R * (R + 1) div 2"
  have "0 \<le> t" "t \<le> 52 - 4 * int (length names)" using g(2,3) by (simp_all add: t_def)
  then have "int (length (take (nat t) (drop (4 * length names) (sh all_cards)))) = t"
    using N sh by simp
  then have "pyramid_ok (pyramid g)"
    unfolding g(4) t_def [symmetric] using g(2) Pyramid_init_exact t_def by blast
  then show ?thesis using N by (simp add: g(1))
qed

lemma next_card_keeps_ok:
  assumes "pyramid_ok p"
  shows "pyramid_ok (snd (next_card p))"
proof (cases "exhausted p")
  case True
  then show ?thesis using assms by (simp add: next_card_exhausted)
next
  case False
  from next_card_step [OF assms False] show ?thesis by auto
qed

lemma play_turn_invariant:
  assumes "pyramid_ok (pyramid g)"
  shows "players (snd (snd (play_turn w g claimer target chosen_index target_believes)))
           = players g
       \<and> pyramid_ok (pyramid (snd (snd
            (play_turn w g claimer target chosen_index target_believes))))"
proof -
  have "snd (snd (play_turn w g claimer target chosen_index target_believes))
          = snd (reveal_next_card g)"
    by (simp add: play_turn_def Let_def split: prod.splits sum.splits option.splits)
  then show ?thesis
    using next_card_keeps_ok [OF assms] by (simp add: reveal_next_card_def split_beta)
qed

end
